theory Spec2Isabelle
  imports Complex_Main
begin

section \<open>Python values\<close>

text \<open>
  The converter is Python 2 code (\<^verbatim>\<open>print\<close> statements, \<^verbatim>\<open>import Image\<close>).
  Every \<^verbatim>\<open>raise\<close> that the modelled code can reach is a value of \<open>error\<close>.
\<close>

datatype error = KeyError | ZeroDivisionError | AttributeError | ValueError | IndexError

text \<open>
  A Python 2 number is an \<^verbatim>\<open>int\<close> (unbounded, it promotes itself to \<^verbatim>\<open>long\<close>) or a
  \<^verbatim>\<open>float\<close>. A float is modelled by the rational it stands for: rounding, infinities
  and NaN are left out.
\<close>

datatype pynum = PInt int | PFloat rat

fun to_rat :: "pynum \<Rightarrow> rat" where
  "to_rat (PInt i) = of_int i"
| "to_rat (PFloat r) = r"

definition pyfloat :: "pynum \<Rightarrow> pynum" where
  "pyfloat a = PFloat (to_rat a)"

text \<open>
  Python 2 \<^verbatim>\<open>/\<close>: floor division on two ints, true division as soon as one operand is a
  float; a zero divisor raises in both cases.
\<close>

fun pydiv :: "pynum \<Rightarrow> pynum \<Rightarrow> error + pynum" where
  "pydiv (PInt a) (PInt b) = (if b = 0 then Inl ZeroDivisionError else Inr (PInt (a div b)))"
| "pydiv a b = (if to_rat b = 0 then Inl ZeroDivisionError else Inr (PFloat (to_rat a / to_rat b)))"

fun pymul :: "pynum \<Rightarrow> pynum \<Rightarrow> pynum" where
  "pymul (PInt a) (PInt b) = PInt (a * b)"
| "pymul a b = PFloat (to_rat a * to_rat b)"

fun pysub :: "pynum \<Rightarrow> pynum \<Rightarrow> pynum" where
  "pysub (PInt a) (PInt b) = PInt (a - b)"
| "pysub a b = PFloat (to_rat a - to_rat b)"

text \<open>Sequencing of two steps of which the first may raise.\<close>

definition try_bind :: "error + 'a \<Rightarrow> ('a \<Rightarrow> error + 'b) \<Rightarrow> error + 'b" where
  "try_bind m f = (case m of Inl e \<Rightarrow> Inl e | Inr v \<Rightarrow> f v)"

text \<open>\<^verbatim>\<open>reportlab.lib.units.inch\<close>: the number of points in an inch, a float.\<close>

definition inch :: pynum where
  "inch = PFloat 72"

section \<open>The parsed document\<close>

text \<open>
  An ElementTree element: tag, attribute dictionary, text before the first child
  (\<^verbatim>\<open>None\<close> when there is none), text after the closing tag, children in order.
\<close>

datatype element =
  Element (el_tag: string) (el_attrib: "(string \<times> string) list")
    (el_text: "string option") (el_tail: "string option") (el_children: "element list")

text \<open>\<^verbatim>\<open>self.hocr\<close> (\<^verbatim>\<open>None\<close> until a file is parsed; then its root) and \<^verbatim>\<open>self.xmlns\<close>.\<close>

record converter =
  hocr :: "element option"
  xmlns :: string

text \<open>
  \<^verbatim>\<open>findall(".//tag")\<close> on the tree: every element below the root, in document order,
  whose tag is the given one. \<^verbatim>\<open>find\<close> is the first of them, or \<^verbatim>\<open>None\<close>.
\<close>

fun descendants :: "element \<Rightarrow> element list" where
  "descendants (Element tg ats tx ta cs) = concat (map (\<lambda>c. c # descendants c) cs)"

definition findall :: "element \<Rightarrow> string \<Rightarrow> element list" where
  "findall tree tg = filter (\<lambda>e. el_tag e = tg) (descendants tree)"

definition find_first :: "element \<Rightarrow> string \<Rightarrow> element option" where
  "find_first tree tg = (case findall tree tg of [] \<Rightarrow> None | e # _ \<Rightarrow> Some e)"

section \<open>Plain text\<close>

text \<open>
  \<^verbatim>\<open>_get_element_text\<close>: the loop over the children appends to the text collected so
  far.
\<close>

fun get_element_text :: "element \<Rightarrow> string" where
  "get_element_text (Element tg ats tx ta cs) =
     (let text0 = (case tx of None \<Rightarrow> [] | Some t \<Rightarrow> [] @ t);
          text1 = foldl (\<lambda>text child. text @ get_element_text child) text0 cs
      in case ta of None \<Rightarrow> text1 | Some t \<Rightarrow> text1 @ t)"

text \<open>
  \<^verbatim>\<open>__str__\<close>. The test \<^verbatim>\<open>if body:\<close> is the truth value of an element, which
  ElementTree defines as "has at least one child". The result is returned as the
  sequence of its characters; their UTF-8 encoding is not modelled.
\<close>

definition to_str :: "converter \<Rightarrow> string" where
  "to_str cv =
     (case hocr cv of
        None \<Rightarrow> []
      | Some tree \<Rightarrow>
          (case find_first tree (xmlns cv @ ''body'') of
             None \<Rightarrow> []
           | Some body \<Rightarrow> if el_children body \<noteq> [] then get_element_text body else []))"

section \<open>Bounding boxes\<close>

text \<open>
  The character classes of the pattern \<^verbatim>\<open>bbox((\s+\d+){4})\<close>, compiled without the
  UNICODE flag: \<^verbatim>\<open>\s\<close> is space, tab, newline, carriage return, vertical tab and form
  feed, \<^verbatim>\<open>\d\<close> is \<^verbatim>\<open>0\<close> to \<^verbatim>\<open>9\<close>.
\<close>

definition is_space :: "char \<Rightarrow> bool" where
  "is_space c \<longleftrightarrow> c \<in> set [CHR '' '', CHR 0x09, CHR 0x0A, CHR 0x0D, CHR 0x0B, CHR 0x0C]"

definition is_digit :: "char \<Rightarrow> bool" where
  "is_digit c \<longleftrightarrow> c \<in> set ''0123456789''"

text \<open>
  One round of \<^verbatim>\<open>\s+\d+\<close> at the head of a string: the matched text and the rest.
  Both repetitions are greedy, and giving back a character never helps (what follows a
  maximal run of spaces is not a space, what follows a maximal run of digits is not a
  digit), so the longest runs are the match the backtracking engine finds.
\<close>

definition match_space_digits :: "string \<Rightarrow> (string \<times> string) option" where
  "match_space_digits s =
     (let ws = takeWhile is_space s; r = dropWhile is_space s;
          ds = takeWhile is_digit r; r' = dropWhile is_digit r
      in if ws = [] \<or> ds = [] then None else Some (ws @ ds, r'))"

fun match_rep :: "nat \<Rightarrow> string \<Rightarrow> string option" where
  "match_rep 0 s = Some []"
| "match_rep (Suc n) s =
     (case match_space_digits s of
        None \<Rightarrow> None
      | Some (g, r) \<Rightarrow> (case match_rep n r of None \<Rightarrow> None | Some g' \<Rightarrow> Some (g @ g')))"

text \<open>The pattern anchored at the head of a string; the result is \<^verbatim>\<open>group(1)\<close>.\<close>

definition match_here :: "string \<Rightarrow> string option" where
  "match_here s = (if take 4 s = ''bbox'' then match_rep 4 (drop 4 s) else None)"

text \<open>\<^verbatim>\<open>boxPattern.search\<close>: the match at the leftmost position that has one.\<close>

fun search :: "string \<Rightarrow> string option" where
  "search [] = match_here []"
| "search (c # cs) = (case match_here (c # cs) of Some g \<Rightarrow> Some g | None \<Rightarrow> search cs)"

text \<open>\<^verbatim>\<open>str.split()\<close> with no separator: the maximal runs of non-space characters.\<close>

function split :: "string \<Rightarrow> string list" where
  "split s =
     (let r = dropWhile is_space s
      in if r = [] then []
         else takeWhile (\<lambda>c. \<not> is_space c) r # split (dropWhile (\<lambda>c. \<not> is_space c) r))"
  by pat_completeness auto
termination
proof (relation "measure length")
  show "wf (measure length)" by simp
next
  fix s r :: string
  assume r: "r = dropWhile is_space s" and ne: "r \<noteq> []"
  from ne obtain c cs where rc: "r = c # cs" by (cases r) auto
  have "\<not> is_space (hd r)"
    unfolding r using ne [unfolded r] by (rule hd_dropWhile)
  then have c: "\<not> is_space c" unfolding rc by simp
  have "length (dropWhile (\<lambda>c. \<not> is_space c) cs) \<le> length cs"
    by (rule length_dropWhile_le)
  moreover have "length r \<le> length s"
    unfolding r by (rule length_dropWhile_le)
  ultimately show "(dropWhile (\<lambda>c. \<not> is_space c) r, s) \<in> measure length"
    using rc c by simp
qed

declare split.simps [simp del]

text \<open>
  \<^verbatim>\<open>int(s)\<close> on a string: surrounding whitespace and one sign are allowed, then at least
  one digit and nothing else; anything else raises \<^verbatim>\<open>ValueError\<close>.
\<close>

definition digit_value :: "char \<Rightarrow> int" where
  "digit_value c = of_char c - 48"

definition decimal :: "string \<Rightarrow> int" where
  "decimal ds = foldl (\<lambda>a c. 10 * a + digit_value c) 0 ds"

definition strip :: "string \<Rightarrow> string" where
  "strip s = rev (dropWhile is_space (rev (dropWhile is_space s)))"

definition int_py :: "string \<Rightarrow> error + int" where
  "int_py s =
     (let t = strip s;
          sg = (if take 1 t = ''-'' then - 1 else 1);
          ds = (if take 1 t = ''-'' \<or> take 1 t = ''+'' then drop 1 t else t)
      in if ds \<noteq> [] \<and> list_all is_digit ds then Inr (sg * decimal ds) else Inl ValueError)"

text \<open>\<^verbatim>\<open>xs[i]\<close> for a literal index \<open>i \<ge> 0\<close>.\<close>

definition item :: "'a list \<Rightarrow> nat \<Rightarrow> error + 'a" where
  "item xs i = (if i < length xs then Inr (xs ! i) else Inl IndexError)"

text \<open>\<^verbatim>\<open>element_coordinates\<close>.\<close>

definition element_coordinates :: "element \<Rightarrow> error + (int \<times> int \<times> int \<times> int)" where
  "element_coordinates el =
     (case map_of (el_attrib el) ''title'' of
        None \<Rightarrow> Inr (0, 0, 0, 0)
      | Some title \<Rightarrow>
          (case search title of
             None \<Rightarrow> Inr (0, 0, 0, 0)
           | Some g \<Rightarrow>
               (let coords = split g
                in try_bind (try_bind (item coords 0) int_py) (\<lambda>c0.
                   try_bind (try_bind (item coords 1) int_py) (\<lambda>c1.
                   try_bind (try_bind (item coords 2) int_py) (\<lambda>c2.
                   try_bind (try_bind (item coords 3) int_py) (\<lambda>c3.
                   Inr (c0, c1, c2, c3))))))))"

section \<open>Page geometry\<close>

text \<open>
  What \<^verbatim>\<open>to_pdf\<close> reads of the decoded image: \<^verbatim>\<open>im.size\<close> and, when the key is
  there, \<^verbatim>\<open>im.info['dpi']\<close>.
\<close>

record image =
  im_size :: "int \<times> int"
  im_dpi :: "(pynum \<times> pynum) option"

text \<open>
  The local variables \<^verbatim>\<open>width\<close>, \<^verbatim>\<open>height\<close> and \<^verbatim>\<open>ocr_dpi\<close> once they are settled.
  Until then \<^verbatim>\<open>width\<close> and \<^verbatim>\<open>height\<close> are \<^verbatim>\<open>None\<close> together or numbers together, so
  the pair of them is one optional value.
\<close>

record geometry =
  width :: pynum
  height :: pynum
  ocr_dpi :: "pynum \<times> pynum"

text \<open>Lines 100 to 107: the page size from the image's own resolution.\<close>

definition image_page_size :: "image \<Rightarrow> error + (pynum \<times> pynum) option" where
  "image_page_size im =
     (case im_dpi im of
        Some (dx, dy) \<Rightarrow>
          try_bind (pydiv (pyfloat (PInt (fst (im_size im)))) dx) (\<lambda>w.
          try_bind (pydiv (pyfloat (PInt (snd (im_size im)))) dy) (\<lambda>h.
          Inr (Some (w, h))))
      | None \<Rightarrow> Inr None)"

text \<open>Lines 116 to 124: the body of the \<^verbatim>\<open>if\<close> for an \<^verbatim>\<open>ocr_page\<close> element.\<close>

definition ocr_page_geometry :: "element \<Rightarrow> (pynum \<times> pynum) option \<Rightarrow> error + geometry" where
  "ocr_page_geometry dv page =
     try_bind (element_coordinates dv) (\<lambda>(x0, y0, x1, y1).
       let ocrwidth = PInt (x1 - x0); ocrheight = PInt (y1 - y0)
       in try_bind
            (case page of
               None \<Rightarrow>
                 try_bind (pydiv ocrwidth (PInt 300)) (\<lambda>w.
                 try_bind (pydiv ocrheight (PInt 300)) (\<lambda>h. Inr (w, h)))
             | Some p \<Rightarrow> Inr p) (\<lambda>(w, h).
          try_bind (pydiv ocrwidth w) (\<lambda>dx.
          try_bind (pydiv ocrheight h) (\<lambda>dy.
          Inr \<lparr>width = w, height = h, ocr_dpi = (dx, dy)\<rparr>))))"

text \<open>
  Lines 114 to 125: the loop over the \<^verbatim>\<open>div\<close> elements, left by \<^verbatim>\<open>break\<close> at the first
  one of class \<^verbatim>\<open>ocr_page\<close>. The result is the page size (if settled) and \<^verbatim>\<open>ocr_dpi\<close>.
\<close>

fun scan_divs ::
  "element list \<Rightarrow> (pynum \<times> pynum) option \<Rightarrow> pynum \<times> pynum
     \<Rightarrow> error + ((pynum \<times> pynum) option \<times> (pynum \<times> pynum))" where
  "scan_divs [] page dpi = Inr (page, dpi)"
| "scan_divs (dv # dvs) page dpi =
     (case map_of (el_attrib dv) ''class'' of
        None \<Rightarrow> Inl KeyError
      | Some c \<Rightarrow>
          if c = ''ocr_page''
          then try_bind (ocr_page_geometry dv page)
                 (\<lambda>g. Inr (Some (width g, height g), ocr_dpi g))
          else scan_divs dvs page dpi)"

text \<open>
  Lines 95 to 132 of \<^verbatim>\<open>to_pdf\<close>: the lines printed, and the geometry or the error
  raised.
\<close>

definition resolve_geometry :: "converter \<Rightarrow> image \<Rightarrow> string \<Rightarrow> string list \<times> (error + geometry)" where
  "resolve_geometry cv im imageFileName =
     (let out0 = (if hocr cv = None
                  then [''Warning: No hOCR file specified. PDF will be image-only.'']
                  else [])
      in case image_page_size im of
           Inl e \<Rightarrow> (out0, Inl e)
         | Inr page0 \<Rightarrow>
             (case (case hocr cv of
                      None \<Rightarrow> Inr (page0, (PInt 300, PInt 300))
                    | Some tree \<Rightarrow>
                        scan_divs (findall tree (xmlns cv @ ''div'')) page0 (PInt 300, PInt 300)) of
                Inl e \<Rightarrow> (out0, Inl e)
              | Inr (Some (w, h), dpi) \<Rightarrow>
                  (out0, Inr \<lparr>width = w, height = h, ocr_dpi = dpi\<rparr>)
              | Inr (None, dpi) \<Rightarrow>
                  (out0 @ [''Warning: DPI unavailable for image '' @ imageFileName
                             @ ''. Assuming 96 DPI.''],
                   try_bind (pydiv (pyfloat (PInt (fst (im_size im)))) (PInt 96)) (\<lambda>w.
                   try_bind (pydiv (pyfloat (PInt (snd (im_size im)))) (PInt 96)) (\<lambda>h.
                   Inr \<lparr>width = w, height = h, ocr_dpi = dpi\<rparr>)))))"

section \<open>The text layer\<close>

text \<open>
  Modelled from the spec: \<^verbatim>\<open>stringWidth\<close> belongs to the PDF library, which is not part
  of the sources. The spec speaks of the natural width of a text at a font and size,
  which is zero for the empty text. Here it is the sum of the advance widths of the
  characters, which a font gives in thousandths of the font size, as a float. The width
  tables of the fonts are the parameter \<open>fonts\<close>.
\<close>

definition stringWidth :: "(string \<Rightarrow> char \<Rightarrow> int) \<Rightarrow> string \<Rightarrow> string \<Rightarrow> pynum \<Rightarrow> pynum" where
  "stringWidth fonts txt fontname fontsize =
     PFloat (of_int (sum_list (map (fonts fontname) txt)) * (1 / 1000) * to_rat fontsize)"

text \<open>
  \<^verbatim>\<open>str.rstrip()\<close> of a byte string, which is what the parser gives for ASCII text: the
  whitespace is the same six characters.
\<close>

definition rstrip :: "string \<Rightarrow> string" where
  "rstrip s = rev (dropWhile is_space (rev s))"

text \<open>What one text object holds when it is drawn.\<close>

record text_object =
  tx_font :: "string \<times> pynum"
  tx_render_mode :: int
  tx_origin :: "pynum \<times> pynum"
  tx_horiz_scale :: pynum
  tx_line :: string

text \<open>Line 149: the arguments of \<^verbatim>\<open>setTextOrigin\<close>.\<close>

definition text_origin :: "geometry \<Rightarrow> int \<times> int \<times> int \<times> int \<Rightarrow> error + (pynum \<times> pynum)" where
  "text_origin g coords =
     (case coords of (x0, y0, x1, y1) \<Rightarrow>
        try_bind (pydiv (pyfloat (PInt x0)) (fst (ocr_dpi g))) (\<lambda>l.
        try_bind (pydiv (pyfloat (PInt y1)) (snd (ocr_dpi g))) (\<lambda>b.
        Inr (pymul l inch, pysub (pymul (height g) inch) (pymul b inch)))))"

text \<open>Line 152: the argument of \<^verbatim>\<open>setHorizScale\<close>.\<close>

definition horiz_scale ::
  "(string \<Rightarrow> char \<Rightarrow> int) \<Rightarrow> string \<Rightarrow> pynum \<Rightarrow> geometry \<Rightarrow> int \<times> int \<times> int \<times> int
     \<Rightarrow> string option \<Rightarrow> error + pynum" where
  "horiz_scale fonts fontname fontsize g coords line_text =
     (case coords of (x0, y0, x1, y1) \<Rightarrow>
        try_bind (pydiv (pyfloat (PInt x1)) (fst (ocr_dpi g))) (\<lambda>r.
        try_bind (pydiv (pyfloat (PInt x0)) (fst (ocr_dpi g))) (\<lambda>l.
        try_bind (case line_text of None \<Rightarrow> Inl AttributeError | Some t \<Rightarrow> Inr (rstrip t)) (\<lambda>t.
        try_bind (pydiv (pysub (pymul r inch) (pymul l inch))
                    (stringWidth fonts t fontname fontsize)) (\<lambda>q.
        Inr (pymul q (PInt 100)))))))"

text \<open>Lines 143 to 156: the body of the \<^verbatim>\<open>if\<close> for an \<^verbatim>\<open>ocr_line\<close> element.\<close>

definition draw_line ::
  "(string \<Rightarrow> char \<Rightarrow> int) \<Rightarrow> string \<Rightarrow> pynum \<Rightarrow> geometry \<Rightarrow> element \<Rightarrow> error + text_object" where
  "draw_line fonts fontname fontsize g line =
     try_bind (element_coordinates line) (\<lambda>coords.
     try_bind (text_origin g coords) (\<lambda>origin.
     try_bind (horiz_scale fonts fontname fontsize g coords (el_text line)) (\<lambda>hs.
     try_bind (case el_text line of None \<Rightarrow> Inl AttributeError | Some t \<Rightarrow> Inr (rstrip t)) (\<lambda>t.
     Inr \<lparr>tx_font = (fontname, fontsize), tx_render_mode = 3, tx_origin = origin,
          tx_horiz_scale = hs, tx_line = t\<rparr>))))"

text \<open>Lines 141 to 156: the loop over the \<^verbatim>\<open>span\<close> elements.\<close>

fun draw_lines ::
  "(string \<Rightarrow> char \<Rightarrow> int) \<Rightarrow> string \<Rightarrow> pynum \<Rightarrow> geometry \<Rightarrow> element list
     \<Rightarrow> error + text_object list" where
  "draw_lines fonts fontname fontsize g [] = Inr []"
| "draw_lines fonts fontname fontsize g (line # lns) =
     (case map_of (el_attrib line) ''class'' of
        None \<Rightarrow> Inl KeyError
      | Some c \<Rightarrow>
          if c = ''ocr_line''
          then try_bind (draw_line fonts fontname fontsize g line) (\<lambda>t.
               try_bind (draw_lines fonts fontname fontsize g lns) (\<lambda>ts. Inr (t # ts)))
          else draw_lines fonts fontname fontsize g lns)"

text \<open>
  The page that \<^verbatim>\<open>to_pdf\<close> saves: its size, the size the image is drawn at (from the
  origin), and the text objects in the order they are drawn.
\<close>

record pdf =
  pagesize :: "pynum \<times> pynum"
  image_drawn :: "pynum \<times> pynum"
  texts :: "text_object list"

text \<open>
  \<^verbatim>\<open>to_pdf\<close>: the lines printed, and the page saved or the error raised. The decoded
  image stands for the file that \<^verbatim>\<open>Image.open\<close> reads.
\<close>

definition to_pdf ::
  "(string \<Rightarrow> char \<Rightarrow> int) \<Rightarrow> converter \<Rightarrow> image \<Rightarrow> string \<Rightarrow> string \<Rightarrow> pynum
     \<Rightarrow> string list \<times> (error + pdf)" where
  "to_pdf fonts cv im imageFileName fontname fontsize =
     (case resolve_geometry cv im imageFileName of
        (out, Inl e) \<Rightarrow> (out, Inl e)
      | (out, Inr g) \<Rightarrow>
          (out,
           try_bind (case hocr cv of
                       None \<Rightarrow> Inr []
                     | Some tree \<Rightarrow>
                         draw_lines fonts fontname fontsize g
                           (findall tree (xmlns cv @ ''span''))) (\<lambda>ts.
           Inr \<lparr>pagesize = (pymul (width g) inch, pymul (height g) inch),
                image_drawn = (pymul (width g) inch, pymul (height g) inch),
                texts = ts\<rparr>)))"

section \<open>The bounding-box notation\<close>

text \<open>
  What the format asks of a title, stated on its own: a non-empty run of whitespace, a
  decimal integer (a non-empty run of digits), and \<open>groups g ds\<close> for a text \<open>g\<close> that
  is a sequence of integers \<open>ds\<close>, each after whitespace.
\<close>

definition spaces :: "string \<Rightarrow> bool" where
  "spaces w \<longleftrightarrow> w \<noteq> [] \<and> list_all is_space w"

definition digits :: "string \<Rightarrow> bool" where
  "digits d \<longleftrightarrow> d \<noteq> [] \<and> list_all is_digit d"

inductive groups :: "string \<Rightarrow> string list \<Rightarrow> bool" where
  groups_Nil: "groups [] []"
| groups_Cons: "spaces w \<Longrightarrow> digits d \<Longrightarrow> groups g ds \<Longrightarrow> groups (w @ d @ g) (d # ds)"

text \<open>
  After the prefix \<open>pre\<close>, the title goes on with the token \<^verbatim>\<open>bbox\<close> and the four
  integers \<open>ds\<close>, the last of which ends there (no further digit follows it).
\<close>

definition bbox_at :: "string \<Rightarrow> string \<Rightarrow> string list \<Rightarrow> bool" where
  "bbox_at title pre ds \<longleftrightarrow>
     (\<exists>g post. title = pre @ ''bbox'' @ g @ post \<and> groups g ds \<and> length ds = 4
        \<and> (post = [] \<or> \<not> is_digit (hd post)))"

section \<open>Example inputs\<close>

text \<open>A page of 2550 by 3300 pixels: US letter scanned at 300 DPI.\<close>

definition letter_page_div :: element where
  "letter_page_div =
     Element ''div'' [(''class'', ''ocr_page''), (''title'', ''bbox 0 0 2550 3300'')] None None []"

definition letter_doc :: element where
  "letter_doc = Element ''html'' [] None None [Element ''body'' [] None None [letter_page_div]]"

text \<open>A document whose body holds text and no element.\<close>

definition text_only_doc :: element where
  "text_only_doc = Element ''html'' [] None None [Element ''body'' [] (Some ''Hello'') None []]"

text \<open>The same page given by an image that carries its resolution, 300 DPI both ways.\<close>

definition letter_image :: image where
  "letter_image = \<lparr>im_size = (2550, 3300), im_dpi = Some (PInt 300, PInt 300)\<rparr>"

definition letter_geometry :: geometry where
  "letter_geometry =
     \<lparr>width = PFloat (17 / 2), height = PFloat 11, ocr_dpi = (PFloat 300, PFloat 300)\<rparr>"

text \<open>A font table in which every glyph of every font is 600 units wide, as in Courier.\<close>

definition courier_widths :: "string \<Rightarrow> char \<Rightarrow> int" where
  "courier_widths fontname c = 600"

text \<open>
  Lines as OCR engines write them: the words in child elements, or the text in the line
  itself.
\<close>

definition word_span :: element where
  "word_span =
     Element ''span'' [(''class'', ''ocrx_word''), (''title'', ''bbox 100 100 400 130'')]
       (Some ''Hello'') None []"

definition blank_line :: element where
  "blank_line =
     Element ''span'' [(''class'', ''ocr_line''), (''title'', ''bbox 100 100 400 130'')]
       (Some '' '') None [word_span]"

definition hello_line :: element where
  "hello_line =
     Element ''span'' [(''class'', ''ocr_line''), (''title'', ''bbox 100 100 400 130'')]
       (Some ''Hello'') None []"


text \<open>The text objects drawn for these two lines on the letter page, in Courier at size 8.\<close>

definition hello_text :: text_object where
  "hello_text =
     \<lparr>tx_font = (''Courier'', PInt 8), tx_render_mode = 3,
      tx_origin = (PFloat 24, PFloat (3804 / 5)), tx_horiz_scale = PFloat 300,
      tx_line = ''Hello''\<rparr>"


text \<open>Documents built from them.\<close>

definition blank_line_doc :: element where
  "blank_line_doc =
     Element ''html'' [] None None
       [Element ''body'' [] None None
          [Element ''div'' [(''class'', ''ocr_page''), (''title'', ''bbox 0 0 2550 3300'')]
             None None [blank_line]]]"


definition half_res_doc :: element where
  "half_res_doc =
     Element ''html'' [] None None
       [Element ''body'' [] None None
          [Element ''div'' [(''class'', ''ocr_page''), (''title'', ''bbox 0 0 1275 1650'')] None None []]]"

definition nested_div_doc :: element where
  "nested_div_doc =
     Element ''html'' [] None None
       [Element ''body'' [] None None
          [Element ''div'' [(''class'', ''ocr_page''), (''title'', ''bbox 0 0 2550 3300'')] None None
             [Element ''div'' [] None None [hello_line]]]]"

definition wrapped_page_doc :: element where
  "wrapped_page_doc =
     Element ''html'' [] None None
       [Element ''body'' [] None None
          [Element ''div'' [] None None
             [Element ''div'' [(''class'', ''ocr_page''), (''title'', ''bbox 0 0 2550 3300'')]
                None None [hello_line]]]]"

definition plain_span_doc :: element where
  "plain_span_doc =
     Element ''html'' [] None None
       [Element ''body'' [] None None
          [Element ''div'' [(''class'', ''ocr_page''), (''title'', ''bbox 0 0 2550 3300'')] None None
             [hello_line, Element ''span'' [] (Some ''page 1'') None []]]]"

section \<open>Bounding boxes from titles\<close>

lemma digit_not_space: "is_digit c \<Longrightarrow> \<not> is_space c"
  by (auto simp: is_digit_def is_space_def)

lemma spaces_hd: "spaces w \<Longrightarrow> is_space (hd w)"
  by (cases w) (simp_all add: spaces_def)

lemma digits_hd: "digits d \<Longrightarrow> is_digit (hd d)"
  by (cases d) (simp_all add: digits_def)

lemma takeWhile_stop: "r = [] \<or> \<not> P (hd r) \<Longrightarrow> takeWhile P r = []"
  by (cases r) auto

lemma dropWhile_stop: "r = [] \<or> \<not> P (hd r) \<Longrightarrow> dropWhile P r = r"
  by (cases r) auto

lemma takeWhile_run:
  "list_all P xs \<Longrightarrow> r = [] \<or> \<not> P (hd r) \<Longrightarrow> takeWhile P (xs @ r) = xs"
  by (simp add: list_all_iff takeWhile_stop)

lemma dropWhile_run:
  "list_all P xs \<Longrightarrow> r = [] \<or> \<not> P (hd r) \<Longrightarrow> dropWhile P (xs @ r) = r"
  by (simp add: list_all_iff dropWhile_stop)

lemma match_space_digits_sound:
  assumes w: "spaces w" and d: "digits d" and r: "r = [] \<or> \<not> is_digit (hd r)"
  shows "match_space_digits (w @ d @ r) = Some (w @ d, r)"
proof -
  have dr: "d @ r = [] \<or> \<not> is_space (hd (d @ r))"
    using d digits_hd [OF d] by (simp add: digits_def digit_not_space)
  have 1: "takeWhile is_space (w @ d @ r) = w"
    using w dr by (intro takeWhile_run) (simp_all add: spaces_def)
  have 2: "dropWhile is_space (w @ d @ r) = d @ r"
    using w dr by (intro dropWhile_run) (simp_all add: spaces_def)
  have 3: "takeWhile is_digit (d @ r) = d"
    using d r by (intro takeWhile_run) (simp_all add: digits_def)
  have 4: "dropWhile is_digit (d @ r) = r"
    using d r by (intro dropWhile_run) (simp_all add: digits_def)
  show ?thesis
    using w d by (simp add: match_space_digits_def 1 2 3 4 spaces_def digits_def)
qed

lemma match_space_digits_complete:
  assumes "match_space_digits s = Some (g, r)"
  shows "\<exists>w d. spaces w \<and> digits d \<and> g = w @ d \<and> s = g @ r \<and> (r = [] \<or> \<not> is_digit (hd r))"
proof -
  define w where "w = takeWhile is_space s"
  define d where "d = takeWhile is_digit (dropWhile is_space s)"
  from assms have ne: "w \<noteq> []" "d \<noteq> []" and g: "g = w @ d"
    and r: "r = dropWhile is_digit (dropWhile is_space s)"
    by (auto simp: match_space_digits_def Let_def w_def d_def split: if_splits)
  have "list_all is_space w" unfolding w_def list_all_iff by (auto dest: set_takeWhileD)
  moreover have "list_all is_digit d" unfolding d_def list_all_iff by (auto dest: set_takeWhileD)
  moreover have "s = g @ r" unfolding g r w_def d_def by simp
  moreover have "r = [] \<or> \<not> is_digit (hd r)" unfolding r using hd_dropWhile by blast
  ultimately show ?thesis using ne g by (auto simp: spaces_def digits_def)
qed

lemma groups_hd: "groups g ds \<Longrightarrow> g = [] \<or> is_space (hd g)"
proof (induction rule: groups.induct)
  case groups_Nil
  then show ?case by simp
next
  case (groups_Cons w d g ds)
  from groups_Cons.hyps(1) have "w \<noteq> []" by (simp add: spaces_def)
  then have "hd (w @ d @ g) = hd w" by simp
  then show ?case using spaces_hd [OF groups_Cons.hyps(1)] by simp
qed

lemma groups_then: "groups g ds \<Longrightarrow> post = [] \<or> \<not> is_digit (hd post) \<Longrightarrow>
    g @ post = [] \<or> \<not> is_digit (hd (g @ post))"
proof (cases "g = []")
  case True
  assume "post = [] \<or> \<not> is_digit (hd post)"
  then show ?thesis using True by simp
next
  case False
  assume "groups g ds"
  then have "is_space (hd g)" using groups_hd False by blast
  then have "\<not> is_digit (hd g)" using digit_not_space by blast
  then show ?thesis using False by simp
qed

lemma groups_digits: "groups g ds \<Longrightarrow> d \<in> set ds \<Longrightarrow> digits d"
  by (induction rule: groups.induct) auto

lemma match_rep_sound:
  "groups g ds \<Longrightarrow> post = [] \<or> \<not> is_digit (hd post) \<Longrightarrow> match_rep (length ds) (g @ post) = Some g"
proof (induction rule: groups.induct)
  case groups_Nil
  then show ?case by simp
next
  case (groups_Cons w d g ds)
  have "g @ post = [] \<or> \<not> is_digit (hd (g @ post))"
    using groups_Cons.hyps(3) groups_Cons.prems by (rule groups_then)
  then have "match_space_digits (w @ d @ g @ post) = Some (w @ d, g @ post)"
    using groups_Cons.hyps(1,2) by (rule match_space_digits_sound [rotated 2])
  then show ?case using groups_Cons.IH groups_Cons.prems by simp
qed

lemma match_rep_complete:
  "match_rep n s = Some g \<Longrightarrow>
     \<exists>ds r. groups g ds \<and> length ds = n \<and> s = g @ r \<and> (n = 0 \<or> r = [] \<or> \<not> is_digit (hd r))"
proof (induction n arbitrary: s g)
  case 0
  then show ?case by (auto intro: groups_Nil)
next
  case (Suc n)
  from Suc.prems obtain g1 r1 g' where m: "match_space_digits s = Some (g1, r1)"
    and m': "match_rep n r1 = Some g'" and g: "g = g1 @ g'"
    by (auto split: option.splits)
  from match_space_digits_complete [OF m] obtain w d where wd: "spaces w" "digits d" "g1 = w @ d"
    "s = g1 @ r1" "r1 = [] \<or> \<not> is_digit (hd r1)" by blast
  from Suc.IH [OF m'] obtain ds r where ih: "groups g' ds" "length ds = n" "r1 = g' @ r"
    "n = 0 \<or> r = [] \<or> \<not> is_digit (hd r)" by blast
  have "groups g (d # ds)" unfolding g wd(3) using groups_Cons [OF wd(1,2) ih(1)] by simp
  moreover have "s = g @ r" using wd(4) ih(3) g by simp
  moreover have "r = [] \<or> \<not> is_digit (hd r)"
  proof (cases "n = 0")
    case True
    then have "ds = []" using ih(2) by simp
    then have "g' = []" using ih(1) by (auto elim: groups.cases)
    then show ?thesis using wd(5) ih(3) by simp
  next
    case False
    then show ?thesis using ih(4) by simp
  qed
  ultimately show ?case using ih(2) by (intro exI [of _ "d # ds"] exI [of _ r]) simp
qed

lemma split_Nil: "split [] = []"
  by (simp add: split.simps)

lemma split_group:
  assumes w: "spaces w" and d: "digits d" and g: "g = [] \<or> is_space (hd g)"
  shows "split (w @ d @ g) = d # split g"
proof -
  have dn: "list_all (\<lambda>c. \<not> is_space c) d"
    using d by (auto simp: digits_def list_all_iff dest: digit_not_space)
  have dr: "d @ g = [] \<or> \<not> is_space (hd (d @ g))"
    using d digits_hd [OF d] by (simp add: digits_def digit_not_space)
  have 2: "dropWhile is_space (w @ d @ g) = d @ g"
    using w dr by (intro dropWhile_run) (simp_all add: spaces_def)
  have g': "g = [] \<or> \<not> (\<not> is_space (hd g))" using g by simp
  have 3: "takeWhile (\<lambda>c. \<not> is_space c) (d @ g) = d"
    using dn g' by (rule takeWhile_run)
  have 4: "dropWhile (\<lambda>c. \<not> is_space c) (d @ g) = g"
    using dn g' by (rule dropWhile_run)
  show ?thesis
    using d by (subst split.simps) (simp add: 2 3 4 Let_def digits_def)
qed

lemma split_groups: "groups g ds \<Longrightarrow> split g = ds"
  by (induction rule: groups.induct) (simp_all add: split_Nil split_group groups_hd)

lemma strip_digits: "digits d \<Longrightarrow> strip d = d"
proof -
  assume d: "digits d"
  have 1: "dropWhile is_space d = d"
    using digits_hd [OF d] by (intro dropWhile_stop) (simp add: digit_not_space)
  have "is_digit (last d)" using d by (simp add: digits_def list_all_iff)
  then have "\<not> is_space (hd (rev d))" using d by (simp add: hd_rev digit_not_space)
  then have 2: "dropWhile is_space (rev d) = rev d" by (intro dropWhile_stop) simp
  show ?thesis by (simp add: strip_def 1 2)
qed

lemma int_py_digits: "digits d \<Longrightarrow> int_py d = Inr (decimal d)"
proof -
  assume d: "digits d"
  then obtain c cs where dc: "d = c # cs" by (cases d) (auto simp: digits_def)
  then have "is_digit c" using d by (simp add: digits_def)
  then have "c \<noteq> CHR ''-''" "c \<noteq> CHR ''+''" by (auto simp: is_digit_def)
  then show ?thesis using d dc by (simp add: int_py_def strip_digits Let_def digits_def)
qed


lemma match_here_sound:
  assumes "groups g ds" and "length ds = 4" and "post = [] \<or> \<not> is_digit (hd post)"
  shows "match_here (''bbox'' @ g @ post) = Some g"
  using match_rep_sound [OF assms(1,3)] assms(2) by (simp add: match_here_def)

lemma match_here_complete:
  assumes "match_here q = Some g"
  shows "\<exists>ds post. q = ''bbox'' @ g @ post \<and> groups g ds \<and> length ds = 4
           \<and> (post = [] \<or> \<not> is_digit (hd post))"
proof -
  from assms have t: "take 4 q = ''bbox''" and m: "match_rep 4 (drop 4 q) = Some g"
    by (auto simp: match_here_def split: if_splits)
  from match_rep_complete [OF m] obtain ds r where
    r: "groups g ds" "length ds = 4" "drop 4 q = g @ r" "r = [] \<or> \<not> is_digit (hd r)"
    by auto
  have "q = take 4 q @ drop 4 q" by simp
  then have "q = ''bbox'' @ g @ r" using t r(3) by simp
  then show ?thesis using r by blast
qed

lemma search_here: "match_here s = Some g \<Longrightarrow> search s = Some g"
  by (cases s) simp_all

lemma search_first:
  assumes "match_here s = Some g"
    and "\<And>p q. pre = p @ q \<Longrightarrow> q \<noteq> [] \<Longrightarrow> match_here (q @ s) = None"
  shows "search (pre @ s) = Some g"
  using assms(2)
proof (induction pre)
  case Nil
  then show ?case using assms(1) by (simp add: search_here)
next
  case (Cons a pre)
  have "match_here ((a # pre) @ s) = None"
    by (rule Cons.prems [of "[]"]) simp_all
  moreover have "search (pre @ s) = Some g"
  proof (rule Cons.IH)
    fix p q
    assume "pre = p @ q" and "q \<noteq> []"
    then show "match_here (q @ s) = None"
      using Cons.prems [of "a # p" q] by simp
  qed
  ultimately show ?case by simp
qed

lemma search_Some:
  "search s = Some g \<Longrightarrow> \<exists>p q. s = p @ q \<and> match_here q = Some g"
proof (induction s)
  case Nil
  then show ?case by simp
next
  case (Cons c cs)
  show ?case
  proof (cases "match_here (c # cs)")
    case None
    then have "search cs = Some g" using Cons.prems by simp
    from Cons.IH [OF this] obtain p q where "cs = p @ q" "match_here q = Some g" by blast
    then have "c # cs = (c # p) @ q \<and> match_here q = Some g" by simp
    then show ?thesis by blast
  next
    case (Some g')
    then have "c # cs = [] @ (c # cs) \<and> match_here (c # cs) = Some g"
      using Cons.prems by simp
    then show ?thesis by blast
  qed
qed

lemma coords_of_groups:
  assumes "groups g [d0, d1, d2, d3]"
  shows "(let coords = split g
          in try_bind (try_bind (item coords 0) int_py) (\<lambda>c0.
             try_bind (try_bind (item coords 1) int_py) (\<lambda>c1.
             try_bind (try_bind (item coords 2) int_py) (\<lambda>c2.
             try_bind (try_bind (item coords 3) int_py) (\<lambda>c3.
             Inr (c0, c1, c2, c3)))))) =
         Inr (decimal d0, decimal d1, decimal d2, decimal d3)"
proof -
  have s: "split g = [d0, d1, d2, d3]" using assms by (rule split_groups)
  have "digits d0" "digits d1" "digits d2" "digits d3"
    using groups_digits [OF assms] by simp_all
  then have "int_py d0 = Inr (decimal d0)" "int_py d1 = Inr (decimal d1)"
    "int_py d2 = Inr (decimal d2)" "int_py d3 = Inr (decimal d3)"
    by (simp_all add: int_py_digits)
  then show ?thesis by (simp add: s item_def try_bind_def)
qed

lemma element_coordinates_found:
  assumes "map_of (el_attrib el) ''title'' = Some title" and "search title = Some g"
    and "groups g [d0, d1, d2, d3]"
  shows "element_coordinates el = Inr (decimal d0, decimal d1, decimal d2, decimal d3)"
  using coords_of_groups [OF assms(3)] assms(1,2) by (simp add: element_coordinates_def)

lemma length4: "length ds = 4 \<Longrightarrow> \<exists>d0 d1 d2 d3. ds = [d0, d1, d2, d3]"
  by (auto simp: length_Suc_conv eval_nat_numeral)

lemma element_coordinates_total: "\<exists>c. element_coordinates el = Inr c"
proof (cases "map_of (el_attrib el) ''title''")
  case None
  then show ?thesis by (simp add: element_coordinates_def)
next
  case (Some title)
  show ?thesis
  proof (cases "search title")
    case None
    then show ?thesis using Some by (simp add: element_coordinates_def)
  next
    case (Some g)
    from search_Some [OF Some] obtain p q where "match_here q = Some g" by blast
    from match_here_complete [OF this] obtain ds where "groups g ds" "length ds = 4" by blast
    then obtain d0 d1 d2 d3 where "groups g [d0, d1, d2, d3]" using length4 by blast
    from element_coordinates_found [OF \<open>map_of (el_attrib el) ''title'' = Some title\<close> Some this]
    show ?thesis by blast
  qed
qed

text \<open>
  The notation is unambiguous: at a given place the four integers are determined. And the
  condition on what follows the last integer loses nothing: where \<^verbatim>\<open>bbox\<close> is followed by
  four integers in any way, it is followed by four integers read to their end.
\<close>

lemma bbox_at_unique:
  assumes "bbox_at title pre ds" and "bbox_at title pre ds'"
  shows "ds = ds'"
proof -
  from assms(1) obtain g post where 1: "title = pre @ ''bbox'' @ g @ post" "groups g ds"
    "length ds = 4" "post = [] \<or> \<not> is_digit (hd post)"
    by (auto simp: bbox_at_def)
  from assms(2) obtain g' post' where 2: "title = pre @ ''bbox'' @ g' @ post'" "groups g' ds'"
    "length ds' = 4" "post' = [] \<or> \<not> is_digit (hd post')"
    by (auto simp: bbox_at_def)
  have "match_here (''bbox'' @ g @ post) = Some g" using 1(2-4) by (rule match_here_sound)
  moreover have "match_here (''bbox'' @ g' @ post') = Some g'"
    using 2(2-4) by (rule match_here_sound)
  moreover have "''bbox'' @ g @ post = ''bbox'' @ g' @ post'" using 1(1) 2(1) by simp
  ultimately have "g = g'" by simp
  then show ?thesis using split_groups [OF 1(2)] split_groups [OF 2(2)] by simp
qed

lemma groups_Nil_iff: "groups g [] \<longleftrightarrow> g = []"
  by (auto elim: groups.cases intro: groups_Nil)

lemma groups_extend:
  "groups g ds \<Longrightarrow> ds \<noteq> [] \<Longrightarrow> list_all is_digit e \<Longrightarrow>
     \<exists>ds'. groups (g @ e) ds' \<and> length ds' = length ds"
proof (induction rule: groups.induct)
  case groups_Nil
  then show ?case by simp
next
  case (groups_Cons w d g ds)
  show ?case
  proof (cases "ds = []")
    case True
    then have g: "g = []" using groups_Cons.hyps(3) by (simp add: groups_Nil_iff)
    have "digits (d @ e)" using groups_Cons.hyps(2) groups_Cons.prems(2) by (simp add: digits_def)
    from groups.intros(2) [OF groups_Cons.hyps(1) this groups_Nil]
    have "groups ((w @ d @ g) @ e) [d @ e]" using g by simp
    then show ?thesis using True by (intro exI [of _ "[d @ e]"]) simp
  next
    case False
    from groups_Cons.IH [OF False groups_Cons.prems(2)] obtain ds' where
      "groups (g @ e) ds'" "length ds' = length ds" by blast
    with groups.intros(2) [OF groups_Cons.hyps(1,2), of "g @ e" ds']
    show ?thesis by (intro exI [of _ "d # ds'"]) simp
  qed
qed

lemma bbox_at_maximal:
  assumes "title = pre @ ''bbox'' @ g @ post" and "groups g ds" and "length ds = 4"
  shows "\<exists>ds'. bbox_at title pre ds'"
proof -
  let ?e = "takeWhile is_digit post" and ?r = "dropWhile is_digit post"
  have e: "list_all is_digit ?e" by (auto simp: list_all_iff dest: set_takeWhileD)
  have "ds \<noteq> []" using assms(3) by auto
  from groups_extend [OF assms(2) this e] obtain ds' where
    ds': "groups (g @ ?e) ds'" "length ds' = 4" using assms(3) by auto
  have "?r = [] \<or> \<not> is_digit (hd ?r)" using hd_dropWhile by blast
  moreover have "title = pre @ ''bbox'' @ (g @ ?e) @ ?r" using assms(1) by simp
  ultimately have "bbox_at title pre ds'"
    unfolding bbox_at_def using ds' by blast
  then show ?thesis ..
qed

text \<open>
  C2. When the title holds, at its leftmost such place, the token \<^verbatim>\<open>bbox\<close> followed by
  four decimal integers, each after whitespace, \<^verbatim>\<open>element_coordinates\<close> returns exactly
  these four integers. Without a \<^verbatim>\<open>title\<close> key, and with a title that has no such
  place, it returns (0, 0, 0, 0). It raises on no element at all.
\<close>

theorem C2_element_coordinates_bbox:
  "(\<forall>title pre d0 d1 d2 d3.
      map_of (el_attrib el) ''title'' = Some title \<and> bbox_at title pre [d0, d1, d2, d3]
        \<and> (\<forall>pre' ds'. bbox_at title pre' ds' \<longrightarrow> length pre \<le> length pre')
      \<longrightarrow> element_coordinates el = Inr (decimal d0, decimal d1, decimal d2, decimal d3))
   \<and> (map_of (el_attrib el) ''title'' = None \<longrightarrow> element_coordinates el = Inr (0, 0, 0, 0))
   \<and> (\<forall>title. map_of (el_attrib el) ''title'' = Some title \<and> (\<forall>pre ds. \<not> bbox_at title pre ds)
      \<longrightarrow> element_coordinates el = Inr (0, 0, 0, 0))
   \<and> (\<exists>c. element_coordinates el = Inr c)"
proof (intro conjI allI impI)
  fix title pre d0 d1 d2 d3
  assume a: "map_of (el_attrib el) ''title'' = Some title \<and> bbox_at title pre [d0, d1, d2, d3]
        \<and> (\<forall>pre' ds'. bbox_at title pre' ds' \<longrightarrow> length pre \<le> length pre')"
  then obtain g post where t: "title = pre @ ''bbox'' @ g @ post"
    and g: "groups g [d0, d1, d2, d3]" and post: "post = [] \<or> \<not> is_digit (hd post)"
    by (auto simp: bbox_at_def)
  have here: "match_here (''bbox'' @ g @ post) = Some g"
    using g _ post by (rule match_here_sound) simp
  have "search (pre @ ''bbox'' @ g @ post) = Some g"
    using here
  proof (rule search_first)
    fix p q
    assume pq: "pre = p @ q" and q: "q \<noteq> []"
    show "match_here (q @ ''bbox'' @ g @ post) = None"
    proof (rule ccontr)
      assume "match_here (q @ ''bbox'' @ g @ post) \<noteq> None"
      then obtain g' where "match_here (q @ ''bbox'' @ g @ post) = Some g'" by blast
      from match_here_complete [OF this] obtain ds' post' where
        "q @ ''bbox'' @ g @ post = ''bbox'' @ g' @ post'" "groups g' ds'" "length ds' = 4"
        "post' = [] \<or> \<not> is_digit (hd post')" by blast
      then have "bbox_at title p ds'"
        unfolding bbox_at_def t pq by (intro exI [of _ g'] exI [of _ post']) simp
      then have "length pre \<le> length p" using a by blast
      then show False using pq q by simp
    qed
  qed
  then show "element_coordinates el = Inr (decimal d0, decimal d1, decimal d2, decimal d3)"
    using a g t by (intro element_coordinates_found [where title = title and g = g]) simp_all
next
  assume "map_of (el_attrib el) ''title'' = None"
  then show "element_coordinates el = Inr (0, 0, 0, 0)"
    by (simp add: element_coordinates_def)
next
  fix title
  assume a: "map_of (el_attrib el) ''title'' = Some title \<and> (\<forall>pre ds. \<not> bbox_at title pre ds)"
  have "search title = None"
  proof (rule ccontr)
    assume "search title \<noteq> None"
    then obtain g where "search title = Some g" by blast
    from search_Some [OF this] obtain p q where pq: "title = p @ q" "match_here q = Some g"
      by blast
    from match_here_complete [OF pq(2)] obtain ds post where
      "q = ''bbox'' @ g @ post" "groups g ds" "length ds = 4"
      "post = [] \<or> \<not> is_digit (hd post)" by blast
    then have "bbox_at title p ds"
      unfolding bbox_at_def pq(1) by (intro exI [of _ g] exI [of _ post]) simp
    then show False using a by blast
  qed
  then show "element_coordinates el = Inr (0, 0, 0, 0)"
    using a by (simp add: element_coordinates_def)
next
  show "\<exists>c. element_coordinates el = Inr c" by (rule element_coordinates_total)
qed


theorem C2_element_coordinates_bbox_witness:
  "bbox_at ''bbox 0 0 2550 3300; ppageno 0'' [] [''0'', ''0'', ''2550'', ''3300'']
   \<and> element_coordinates
        (Element ''div'' [(''class'', ''ocr_page''), (''title'', ''bbox 0 0 2550 3300; ppageno 0'')]
           None None []) = Inr (0, 0, 2550, 3300)
   \<and> element_coordinates (Element ''span'' [(''class'', ''ocr_line'')] None None []) = Inr (0, 0, 0, 0)
   \<and> element_coordinates (Element ''span'' [(''title'', ''box'')] None None []) = Inr (0, 0, 0, 0)"
proof -
  let ?t = "''bbox 0 0 2550 3300; ppageno 0''"
  let ?e1 = "Element ''div'' [(''class'', ''ocr_page''), (''title'', ?t)] None None []"
  let ?e2 = "Element ''span'' [(''class'', ''ocr_line'')] None None []"
  let ?e3 = "Element ''span'' [(''title'', ''box'')] None None []"
  have "groups ('' '' @ ''0'' @ '' '' @ ''0'' @ '' '' @ ''2550'' @ '' '' @ ''3300'' @ [])
          [''0'', ''0'', ''2550'', ''3300'']"
    by (intro groups.intros) (simp_all add: spaces_def digits_def is_space_def is_digit_def)
  then have g: "groups '' 0 0 2550 3300'' [''0'', ''0'', ''2550'', ''3300'']" by simp
  have b: "bbox_at ?t [] [''0'', ''0'', ''2550'', ''3300'']"
    unfolding bbox_at_def using g
    by (intro exI [of _ "'' 0 0 2550 3300''"] exI [of _ "''; ppageno 0''"])
      (simp add: is_digit_def)
  have d: "decimal ''0'' = 0" "decimal ''2550'' = 2550" "decimal ''3300'' = 3300"
    by (simp_all add: decimal_def digit_value_def)
  have "map_of (el_attrib ?e1) ''title'' = Some ?t
          \<and> bbox_at ?t [] [''0'', ''0'', ''2550'', ''3300'']
          \<and> (\<forall>pre' ds'. bbox_at ?t pre' ds' \<longrightarrow> length ([] :: string) \<le> length pre')"
    using b by simp
  with C2_element_coordinates_bbox [of ?e1]
  have "element_coordinates ?e1 =
          Inr (decimal ''0'', decimal ''0'', decimal ''2550'', decimal ''3300'')"
    by blast
  then have 1: "element_coordinates ?e1 = Inr (0, 0, 2550, 3300)"
    by (simp only: d)
  have 2: "element_coordinates ?e2 = Inr (0, 0, 0, 0)"
    using C2_element_coordinates_bbox [of ?e2] by simp
  have n: "\<not> bbox_at ''box'' pre ds" for pre ds
    by (auto simp: bbox_at_def dest!: arg_cong [where f = length])
  have 3: "element_coordinates ?e3 = Inr (0, 0, 0, 0)"
    using C2_element_coordinates_bbox [of ?e3] n by simp
  show ?thesis using b 1 2 3 by simp
qed

section \<open>Plain-text extraction\<close>

lemma get_element_text_eq:
  "get_element_text (Element tg ats tx ta cs) =
     (case tx of None \<Rightarrow> [] | Some t \<Rightarrow> t) @ concat (map get_element_text cs)
       @ (case ta of None \<Rightarrow> [] | Some t \<Rightarrow> t)"
proof -
  have "foldl (\<lambda>text child. text @ get_element_text child) acc cs
          = acc @ concat (map get_element_text cs)" for acc
    by (induction cs arbitrary: acc) simp_all
  then show ?thesis by (simp split: option.splits)
qed

lemma to_str_body_with_children:
  assumes "hocr cv = Some tree" and "find_first tree (xmlns cv @ ''body'') = Some body"
    and "el_children body \<noteq> []"
  shows "to_str cv = get_element_text body"
  using assms by (simp add: to_str_def)

lemma to_str_no_document: "hocr cv = None \<Longrightarrow> to_str cv = []"
  by (simp add: to_str_def)

lemma to_str_no_body:
  "hocr cv = Some tree \<Longrightarrow> find_first tree (xmlns cv @ ''body'') = None \<Longrightarrow> to_str cv = []"
  by (simp add: to_str_def)

text \<open>
  C3. Plain-text extraction is meant to return, for a document with a body element, the
  body's leading text, then the text of each child in order, then the body's tail. On
  the document \<^verbatim>\<open><html><body>Hello</body></html>\<close> the body element is found and
  by that rule its text is \<^verbatim>\<open>Hello\<close>, but \<^verbatim>\<open>__str__\<close> returns the empty string: the
  test \<^verbatim>\<open>if body:\<close> is false for an element without children.
\<close>

theorem C3_body_without_children_gives_empty:
  "to_str \<lparr>hocr = Some text_only_doc, xmlns = []\<rparr> = []
   \<and> find_first text_only_doc ''body'' = Some (Element ''body'' [] (Some ''Hello'') None [])
   \<and> get_element_text (Element ''body'' [] (Some ''Hello'') None []) = ''Hello''"
  by code_simp

section \<open>Arithmetic of the number model\<close>

lemma pydiv_float_left [simp]:
  "pydiv (PFloat a) b = (if to_rat b = 0 then Inl ZeroDivisionError else Inr (PFloat (a / to_rat b)))"
  by (cases b) simp_all

lemma pydiv_float_right [simp]:
  "pydiv a (PFloat b) = (if b = 0 then Inl ZeroDivisionError else Inr (PFloat (to_rat a / b)))"
  by (cases a) simp_all

lemma pymul_float_right [simp]: "pymul a (PFloat b) = PFloat (to_rat a * b)"
  by (cases a) simp_all

lemma pymul_float_left [simp]: "pymul (PFloat a) b = PFloat (a * to_rat b)"
  by (cases b) simp_all

lemma pysub_float_left [simp]: "pysub (PFloat a) b = PFloat (a - to_rat b)"
  by (cases b) simp_all

lemma pydiv_Inl: "pydiv a b = Inl e \<longleftrightarrow> e = ZeroDivisionError \<and> to_rat b = 0"
  by (cases a; cases b) auto


lemma pydiv_nonneg:
  assumes "pydiv a b = Inr q" and "0 \<le> to_rat a" and "0 \<le> to_rat b"
  shows "0 \<le> to_rat q"
proof (cases a)
  case (PInt i)
  show ?thesis
  proof (cases b)
    case (PInt j)
    with assms \<open>a = PInt i\<close> have "q = PInt (i div j)" "0 \<le> i" "0 \<le> j"
      by (auto split: if_splits)
    then show ?thesis by (simp add: pos_imp_zdiv_nonneg_iff div_int_pos_iff)
  next
    case (PFloat r)
    with assms \<open>a = PInt i\<close> show ?thesis by (auto split: if_splits)
  qed
next
  case (PFloat r)
  with assms show ?thesis by (auto split: if_splits)
qed

section \<open>Resolution of the page geometry\<close>

text \<open>
  C1. For an image without DPI metadata and a document whose first \<^verbatim>\<open>ocr_page\<close> element
  has the box (0, 0, 2550, 3300), the claimed result is a page of 8.5 by 11.0 inches with
  both scale factors 300. The division by 300 is a division of two ints, so the code
  yields a width of 8 inches, a height of 11, and the scale factors 318 and 300.
\<close>

theorem C1_letter_page_integer_division:
  "resolve_geometry \<lparr>hocr = Some letter_doc, xmlns = []\<rparr>
      \<lparr>im_size = (2550, 3300), im_dpi = None\<rparr> ''scan.png'' =
     ([], Inr \<lparr>width = PInt 8, height = PInt 11, ocr_dpi = (PInt 318, PInt 300)\<rparr>)"
  by code_simp

text \<open>
  C5. With no document loaded and no DPI metadata in the image, the page size is the
  pixel size divided by 96 and both scale factors keep their default 300; both warnings
  are printed. An image of 960 by 1080 pixels gives a page of 10 by 11.25 inches, and
  \<^verbatim>\<open>to_pdf\<close> saves a page of that size (in points) without text.
\<close>

theorem C5_no_hocr_no_dpi_assumes_96:
  "resolve_geometry \<lparr>hocr = None, xmlns = ns\<rparr> \<lparr>im_size = (w, h), im_dpi = None\<rparr> name =
     ([''Warning: No hOCR file specified. PDF will be image-only.'',
       ''Warning: DPI unavailable for image '' @ name @ ''. Assuming 96 DPI.''],
      Inr \<lparr>width = PFloat (of_int w / 96), height = PFloat (of_int h / 96),
           ocr_dpi = (PInt 300, PInt 300)\<rparr>)
   \<and> snd (resolve_geometry \<lparr>hocr = None, xmlns = ns\<rparr>
            \<lparr>im_size = (960, 1080), im_dpi = None\<rparr> name) =
       Inr \<lparr>width = PFloat 10, height = PFloat (45 / 4), ocr_dpi = (PInt 300, PInt 300)\<rparr>
   \<and> snd (to_pdf fonts \<lparr>hocr = None, xmlns = ns\<rparr>
            \<lparr>im_size = (960, 1080), im_dpi = None\<rparr> name fontname fontsize) =
       Inr \<lparr>pagesize = (PFloat 720, PFloat 810), image_drawn = (PFloat 720, PFloat 810),
            texts = []\<rparr>"
  by (simp add: to_pdf_def resolve_geometry_def image_page_size_def try_bind_def pyfloat_def
      inch_def)

lemma ocr_page_geometry_given:
  "ocr_page_geometry dv (Some (w, h)) = Inr g \<Longrightarrow> width g = w \<and> height g = h"
  by (auto simp: ocr_page_geometry_def try_bind_def Let_def split: sum.splits prod.splits)

lemma ocr_page_geometry_given_error:
  "ocr_page_geometry dv (Some (w, h)) = Inl e \<Longrightarrow>
     e = ZeroDivisionError \<and> (to_rat w = 0 \<or> to_rat h = 0)"
  using element_coordinates_total [of dv]
  by (auto simp: ocr_page_geometry_def try_bind_def Let_def pydiv_Inl split: sum.splits prod.splits)

lemma scan_divs_keeps_page:
  "scan_divs dvs (Some (w, h)) dpi = Inr (pg, d) \<Longrightarrow> pg = Some (w, h)"
proof (induction dvs)
  case Nil
  then show ?case by simp
next
  case (Cons dv dvs)
  then show ?case
    by (auto simp: try_bind_def split: option.splits if_splits sum.splits
        dest: ocr_page_geometry_given)
qed

lemma scan_divs_given_error:
  "scan_divs dvs (Some (w, h)) dpi = Inl e \<Longrightarrow>
     e = KeyError \<or> e = ZeroDivisionError \<and> (to_rat w = 0 \<or> to_rat h = 0)"
proof (induction dvs)
  case Nil
  then show ?case by simp
next
  case (Cons dv dvs)
  then show ?case
    by (auto simp: try_bind_def split: option.splits if_splits sum.splits
        dest: ocr_page_geometry_given_error)
qed

text \<open>
  C4. For an image that carries DPI metadata \<open>(dx, dy)\<close>, both non-zero, lines 102 and
  103 set the page size to the pixel size divided by the metadata, axis by axis. Whatever
  the document holds, the geometry that \<^verbatim>\<open>to_pdf\<close> goes on with has exactly this page
  size: an \<^verbatim>\<open>ocr_page\<close> element only sets the scale factors. The step fails only on
  account of the document (a \<^verbatim>\<open>div\<close> without class, or a scale factor over a page of
  width or height zero).
\<close>

theorem C4_image_dpi_fixes_page_size:
  assumes "im_dpi im = Some (dx, dy)" and "to_rat dx \<noteq> 0" and "to_rat dy \<noteq> 0"
  shows "image_page_size im =
           Inr (Some (PFloat (of_int (fst (im_size im)) / to_rat dx),
                      PFloat (of_int (snd (im_size im)) / to_rat dy)))
    \<and> (case snd (resolve_geometry cv im name) of
          Inr g \<Rightarrow> width g = PFloat (of_int (fst (im_size im)) / to_rat dx)
                   \<and> height g = PFloat (of_int (snd (im_size im)) / to_rat dy)
        | Inl e \<Rightarrow> hocr cv \<noteq> None
                   \<and> (e = KeyError
                        \<or> e = ZeroDivisionError \<and> (fst (im_size im) = 0 \<or> snd (im_size im) = 0)))"
proof -
  let ?w = "PFloat (of_int (fst (im_size im)) / to_rat dx)"
  let ?h = "PFloat (of_int (snd (im_size im)) / to_rat dy)"
  have 1: "image_page_size im = Inr (Some (?w, ?h))"
    using assms by (simp add: image_page_size_def try_bind_def pyfloat_def)
  have 2: "(case snd (resolve_geometry cv im name) of
          Inr g \<Rightarrow> width g = ?w \<and> height g = ?h
        | Inl e \<Rightarrow> hocr cv \<noteq> None
                   \<and> (e = KeyError
                        \<or> e = ZeroDivisionError \<and> (fst (im_size im) = 0 \<or> snd (im_size im) = 0)))"
  proof (cases "hocr cv")
    case None
    then show ?thesis by (simp add: resolve_geometry_def 1)
  next
    case (Some tree)
    show ?thesis
    proof (cases "scan_divs (findall tree (xmlns cv @ ''div'')) (Some (?w, ?h)) (PInt 300, PInt 300)")
      case (Inl e)
      from scan_divs_given_error [OF this] assms(2,3)
      have "e = KeyError \<or> e = ZeroDivisionError \<and> (fst (im_size im) = 0 \<or> snd (im_size im) = 0)"
        by simp
      then show ?thesis using Some Inl by (simp add: resolve_geometry_def 1)
    next
      case (Inr r)
      obtain pg d where r: "r = (pg, d)" by (cases r)
      from scan_divs_keeps_page [OF Inr [unfolded r]] have "pg = Some (?w, ?h)" .
      then show ?thesis using Some Inr r by (simp add: resolve_geometry_def 1)
    qed
  qed
  show ?thesis using 1 2 by (rule conjI)
qed

theorem C4_image_dpi_fixes_page_size_witness:
  "image_page_size letter_image = Inr (Some (PFloat (17 / 2), PFloat 11))
   \<and> resolve_geometry \<lparr>hocr = Some half_res_doc, xmlns = []\<rparr> letter_image ''scan.png'' =
       ([], Inr \<lparr>width = PFloat (17 / 2), height = PFloat 11, ocr_dpi = (PFloat 150, PFloat 150)\<rparr>)"
proof -
  have d: "im_dpi letter_image = Some (PInt 300, PInt 300)" by (simp add: letter_image_def)
  have s: "im_size letter_image = (2550, 3300)" by (simp add: letter_image_def)
  have r: "resolve_geometry \<lparr>hocr = Some half_res_doc, xmlns = []\<rparr> letter_image ''scan.png'' =
       ([], Inr \<lparr>width = PFloat (17 / 2), height = PFloat 11, ocr_dpi = (PFloat 150, PFloat 150)\<rparr>)"
    by code_simp
  from C4_image_dpi_fixes_page_size [OF d, of "\<lparr>hocr = Some half_res_doc, xmlns = []\<rparr>" "''scan.png''"]
  have "image_page_size letter_image = Inr (Some (PFloat (17 / 2), PFloat 11))"
    by (simp add: s)
  then show ?thesis using r by simp
qed

lemma scan_divs_skip:
  "\<forall>d\<in>set pre. \<exists>c. map_of (el_attrib d) ''class'' = Some c \<and> c \<noteq> ''ocr_page'' \<Longrightarrow>
     scan_divs (pre @ dvs) page dpi = scan_divs dvs page dpi"
  by (induction pre) auto





text \<open>
  The scale factors are not negative when the input is in order: image sizes and DPI
  metadata not negative, and the corners of every \<^verbatim>\<open>div\<close> box in order.
\<close>

lemma scan_divs_result:
  "scan_divs dvs page dpi = Inr (pg, d) \<Longrightarrow>
     (pg = page \<and> d = dpi)
     \<or> (\<exists>dv\<in>set dvs. \<exists>g. ocr_page_geometry dv page = Inr g
           \<and> pg = Some (width g, height g) \<and> d = ocr_dpi g)"
proof (induction dvs)
  case Nil
  then show ?case by simp
next
  case (Cons dv dvs)
  then show ?case
    by (auto simp: try_bind_def split: option.splits if_splits sum.splits)
qed

lemma ocr_page_geometry_scale_nonneg:
  assumes g: "ocr_page_geometry dv page = Inr g"
    and c: "element_coordinates dv = Inr (x0, y0, x1, y1)" and "x0 \<le> x1" and "y0 \<le> y1"
    and p: "\<forall>w h. page = Some (w, h) \<longrightarrow> 0 \<le> to_rat w \<and> 0 \<le> to_rat h"
  shows "0 \<le> to_rat (fst (ocr_dpi g)) \<and> 0 \<le> to_rat (snd (ocr_dpi g))"
proof -
  from g c obtain w h dx dy where
    wh: "(case page of
            None \<Rightarrow>
              try_bind (pydiv (PInt (x1 - x0)) (PInt 300)) (\<lambda>w.
              try_bind (pydiv (PInt (y1 - y0)) (PInt 300)) (\<lambda>h. Inr (w, h)))
          | Some p \<Rightarrow> Inr p) = Inr (w, h)"
    and dx: "pydiv (PInt (x1 - x0)) w = Inr dx" and dy: "pydiv (PInt (y1 - y0)) h = Inr dy"
    and gd: "ocr_dpi g = (dx, dy)"
    by (auto simp: ocr_page_geometry_def try_bind_def Let_def split: sum.splits prod.splits)
  have o: "0 \<le> to_rat (PInt (x1 - x0))" "0 \<le> to_rat (PInt (y1 - y0))"
    using assms(3,4) by simp_all
  have "0 \<le> to_rat w \<and> 0 \<le> to_rat h"
  proof (cases page)
    case None
    with wh have "pydiv (PInt (x1 - x0)) (PInt 300) = Inr w" "pydiv (PInt (y1 - y0)) (PInt 300) = Inr h"
      by (auto simp: try_bind_def split: sum.splits)
    then show ?thesis using o by (auto dest!: pydiv_nonneg)
  next
    case (Some q)
    with wh p show ?thesis by simp
  qed
  then have "0 \<le> to_rat dx" "0 \<le> to_rat dy"
    using pydiv_nonneg [OF dx o(1)] pydiv_nonneg [OF dy o(2)] by simp_all
  then show ?thesis by (simp add: gd)
qed

lemma resolve_geometry_scale_nonneg:
  assumes r: "resolve_geometry cv im name = (out, Inr g)"
    and i: "0 \<le> fst (im_size im)" "0 \<le> snd (im_size im)"
      "\<forall>dx dy. im_dpi im = Some (dx, dy) \<longrightarrow> 0 \<le> to_rat dx \<and> 0 \<le> to_rat dy"
    and b: "\<forall>tree dv x0 y0 x1 y1.
        hocr cv = Some tree \<and> dv \<in> set (findall tree (xmlns cv @ ''div''))
          \<and> element_coordinates dv = Inr (x0, y0, x1, y1) \<longrightarrow> x0 \<le> x1 \<and> y0 \<le> y1"
  shows "0 \<le> to_rat (fst (ocr_dpi g)) \<and> 0 \<le> to_rat (snd (ocr_dpi g))"
proof -
  from r obtain page0 where p0: "image_page_size im = Inr page0"
    by (cases "image_page_size im") (auto simp: resolve_geometry_def Let_def)
  have pp: "\<forall>w h. page0 = Some (w, h) \<longrightarrow> 0 \<le> to_rat w \<and> 0 \<le> to_rat h"
    using p0 i
    by (auto simp: image_page_size_def try_bind_def pyfloat_def
        split: option.splits prod.splits sum.splits if_splits)
  show ?thesis
  proof (cases "hocr cv")
    case None
    with r p0 show ?thesis
      by (auto simp: resolve_geometry_def try_bind_def Let_def
          split: option.splits sum.splits if_splits)
  next
    case (Some tree)
    with r p0 obtain pg d where
      s: "scan_divs (findall tree (xmlns cv @ ''div'')) page0 (PInt 300, PInt 300) = Inr (pg, d)"
      and d: "ocr_dpi g = d"
      by (auto simp: resolve_geometry_def try_bind_def Let_def
          split: option.splits sum.splits if_splits)
    from scan_divs_result [OF s] show ?thesis
    proof
      assume "pg = page0 \<and> d = (PInt 300, PInt 300)"
      then show ?thesis using d by simp
    next
      assume "\<exists>dv\<in>set (findall tree (xmlns cv @ ''div'')). \<exists>g. ocr_page_geometry dv page0 = Inr g
           \<and> pg = Some (width g, height g) \<and> d = ocr_dpi g"
      then obtain dv g' where dv: "dv \<in> set (findall tree (xmlns cv @ ''div''))"
        and g': "ocr_page_geometry dv page0 = Inr g'" "d = ocr_dpi g'" by blast
      obtain x0 y0 x1 y1 where c: "element_coordinates dv = Inr (x0, y0, x1, y1)"
        using element_coordinates_total [of dv] by (metis prod_cases4)
      then have "x0 \<le> x1" "y0 \<le> y1" using b Some dv by blast+
      from ocr_page_geometry_scale_nonneg [OF g'(1) c this pp] show ?thesis
        using d g'(2) by simp
    qed
  qed
qed

section \<open>The text layer on the page\<close>

lemma text_origin_eq:
  "text_origin g (x0, y0, x1, y1) =
     (if to_rat (fst (ocr_dpi g)) = 0 \<or> to_rat (snd (ocr_dpi g)) = 0 then Inl ZeroDivisionError
      else Inr (PFloat (of_int x0 / to_rat (fst (ocr_dpi g)) * 72),
                PFloat (to_rat (height g) * 72 - of_int y1 / to_rat (snd (ocr_dpi g)) * 72)))"
  by (simp add: text_origin_def try_bind_def pyfloat_def inch_def)

lemma horiz_scale_eq:
  "horiz_scale fonts fontname fontsize g (x0, y0, x1, y1) txt =
     (if to_rat (fst (ocr_dpi g)) = 0 then Inl ZeroDivisionError
      else case txt of
             None \<Rightarrow> Inl AttributeError
           | Some t \<Rightarrow>
               if to_rat (stringWidth fonts (rstrip t) fontname fontsize) = 0
               then Inl ZeroDivisionError
               else Inr (PFloat ((of_int x1 / to_rat (fst (ocr_dpi g)) * 72
                                   - of_int x0 / to_rat (fst (ocr_dpi g)) * 72)
                                  / to_rat (stringWidth fonts (rstrip t) fontname fontsize) * 100)))"
  by (simp add: horiz_scale_def try_bind_def pyfloat_def inch_def stringWidth_def split: option.splits)

lemma stringWidth_empty: "stringWidth fonts [] fontname fontsize = PFloat 0"
  by (simp add: stringWidth_def)

lemma draw_line_parts:
  assumes "draw_line fonts fontname fontsize g line = Inr t"
    and "element_coordinates line = Inr c"
  shows "text_origin g c = Inr (tx_origin t)"
    and "horiz_scale fonts fontname fontsize g c (el_text line) = Inr (tx_horiz_scale t)"
    and "\<exists>txt. el_text line = Some txt \<and> tx_line t = rstrip txt"
    and "tx_render_mode t = 3" and "tx_font t = (fontname, fontsize)"
  using assms
  by (auto simp: draw_line_def try_bind_def split: sum.splits option.splits)

lemma draw_lines_objects:
  "draw_lines fonts fontname fontsize g lns = Inr ts \<Longrightarrow>
     list_all2 (\<lambda>line t. draw_line fonts fontname fontsize g line = Inr t)
       (filter (\<lambda>l. map_of (el_attrib l) ''class'' = Some ''ocr_line'') lns) ts"
proof (induction lns arbitrary: ts)
  case Nil
  then show ?case by simp
next
  case (Cons l lns)
  then show ?case
    by (auto simp: try_bind_def split: option.splits if_splits sum.splits)
qed

lemma to_pdf_text_objects:
  assumes "to_pdf fonts cv im name fontname fontsize = (out, Inr page)"
    and "hocr cv = Some tree"
  shows "\<exists>g. resolve_geometry cv im name = (out, Inr g)
           \<and> pagesize page = (pymul (width g) inch, pymul (height g) inch)
           \<and> list_all2 (\<lambda>line t. draw_line fonts fontname fontsize g line = Inr t)
                (filter (\<lambda>l. map_of (el_attrib l) ''class'' = Some ''ocr_line'')
                   (findall tree (xmlns cv @ ''span''))) (texts page)"
proof -
  obtain out' r where r: "resolve_geometry cv im name = (out', r)"
    by (cases "resolve_geometry cv im name")
  show ?thesis
  proof (cases r)
    case (Inl e)
    then show ?thesis using assms r by (simp add: to_pdf_def)
  next
    case (Inr g)
    show ?thesis
    proof (cases "draw_lines fonts fontname fontsize g (findall tree (xmlns cv @ ''span''))")
      case (Inl e)
      then show ?thesis using assms r Inr by (simp add: to_pdf_def try_bind_def)
    next
      case (Inr ts)
      from draw_lines_objects [OF this] show ?thesis
        using assms r \<open>r = Inr g\<close> Inr by (auto simp: to_pdf_def try_bind_def)
    qed
  qed
qed

text \<open>A line is drawn only with both scale factors other than zero.\<close>

lemma drawn_line_scale_positive:
  assumes "draw_line fonts fontname fontsize g line = Inr t"
    and "0 \<le> to_rat (fst (ocr_dpi g)) \<and> 0 \<le> to_rat (snd (ocr_dpi g))"
  shows "0 < to_rat (fst (ocr_dpi g)) \<and> 0 < to_rat (snd (ocr_dpi g))"
proof -
  obtain c where c: "element_coordinates line = Inr c"
    using element_coordinates_total by blast
  obtain x0 y0 x1 y1 where "c = (x0, y0, x1, y1)" by (cases c)
  with draw_line_parts(1) [OF assms(1) c]
  have "to_rat (fst (ocr_dpi g)) \<noteq> 0 \<and> to_rat (snd (ocr_dpi g)) \<noteq> 0"
    by (auto simp: text_origin_eq split: if_splits)
  then show ?thesis using assms(2) by simp
qed

lemma hello_line_drawn:
  "element_coordinates hello_line = Inr (100, 100, 400, 130)"
  "draw_line courier_widths ''Courier'' (PInt 8) letter_geometry hello_line = Inr hello_text"
  by code_simp+









text \<open>
  C8. The division by the natural width is unguarded: on a document whose \<^verbatim>\<open>ocr_line\<close>
  holds its words in child elements and only a space as its own text, the geometry is
  resolved, the origin of the line is computed, and the horizontal scale raises
  \<^verbatim>\<open>ZeroDivisionError\<close>, for every font and size; so does \<^verbatim>\<open>to_pdf\<close>.
\<close>

theorem C8_blank_line_divides_by_zero:
  "resolve_geometry \<lparr>hocr = Some blank_line_doc, xmlns = []\<rparr> letter_image ''scan.png''
     = ([], Inr \<lparr>width = PFloat (17 / 2), height = PFloat 11, ocr_dpi = (PFloat 300, PFloat 300)\<rparr>)
   \<and> text_origin \<lparr>width = PFloat (17 / 2), height = PFloat 11, ocr_dpi = (PFloat 300, PFloat 300)\<rparr>
      (100, 100, 400, 130) = Inr (PFloat 24, PFloat (3804 / 5))
   \<and> horiz_scale fonts fontname fontsize
        \<lparr>width = PFloat (17 / 2), height = PFloat 11, ocr_dpi = (PFloat 300, PFloat 300)\<rparr>
        (100, 100, 400, 130) (el_text blank_line) = Inl ZeroDivisionError
   \<and> snd (to_pdf fonts \<lparr>hocr = Some blank_line_doc, xmlns = []\<rparr> letter_image ''scan.png''
            fontname fontsize)
       = Inl ZeroDivisionError"
proof (intro conjI)
  let ?g = "\<lparr>width = PFloat (17 / 2), height = PFloat 11, ocr_dpi = (PFloat 300, PFloat 300)\<rparr>"
  show g: "resolve_geometry \<lparr>hocr = Some blank_line_doc, xmlns = []\<rparr> letter_image ''scan.png''
     = ([], Inr ?g)"
    by code_simp
  show "text_origin ?g (100, 100, 400, 130) = Inr (PFloat 24, PFloat (3804 / 5))"
    by (simp add: text_origin_eq)
  have r: "rstrip '' '' = []" by (simp add: rstrip_def is_space_def)
  have t: "el_text blank_line = Some '' ''" by (simp add: blank_line_def)
  show hs: "horiz_scale fonts fontname fontsize ?g (100, 100, 400, 130) (el_text blank_line)
        = Inl ZeroDivisionError"
    by (simp add: horiz_scale_eq r t stringWidth_empty)
  have spans: "findall blank_line_doc ''span'' = [blank_line, word_span]"
    by code_simp
  have c: "element_coordinates blank_line = Inr (100, 100, 400, 130)"
    by code_simp
  have k: "map_of (el_attrib blank_line) ''class'' = Some ''ocr_line''"
    by (simp add: blank_line_def)
  have "draw_line fonts fontname fontsize ?g blank_line = Inl ZeroDivisionError"
    by (simp add: draw_line_def c try_bind_def text_origin_eq hs)
  then show "snd (to_pdf fonts \<lparr>hocr = Some blank_line_doc, xmlns = []\<rparr> letter_image ''scan.png''
            fontname fontsize) = Inl ZeroDivisionError"
    by (simp add: to_pdf_def g spans k try_bind_def)
qed

section \<open>Elements without a class attribute\<close>

lemma draw_lines_classless:
  assumes "\<forall>s\<in>set pre. \<exists>c. map_of (el_attrib s) ''class'' = Some c
             \<and> (c = ''ocr_line'' \<longrightarrow> (\<exists>t. draw_line fonts fontname fontsize g s = Inr t))"
    and "map_of (el_attrib sp) ''class'' = None"
  shows "draw_lines fonts fontname fontsize g (pre @ sp # rest) = Inl KeyError"
  using assms(1)
proof (induction pre)
  case Nil
  then show ?case using assms(2) by simp
next
  case (Cons s pre)
  then show ?case by (auto simp: try_bind_def)
qed

lemma scan_divs_classless:
  assumes "\<forall>d\<in>set pre. \<exists>c. map_of (el_attrib d) ''class'' = Some c \<and> c \<noteq> ''ocr_page''"
    and "map_of (el_attrib dv) ''class'' = None"
  shows "scan_divs (pre @ dv # rest) page dpi = Inl KeyError"
  using assms by (simp add: scan_divs_skip)

text \<open>
  C10, as the claim states it: every document with a \<^verbatim>\<open>div\<close> or \<^verbatim>\<open>span\<close> without class
  makes \<^verbatim>\<open>to_pdf\<close> raise. A \<^verbatim>\<open>div\<close> without class below the \<^verbatim>\<open>ocr_page\<close> element is
  never looked at: the page is saved, with the line inside that \<^verbatim>\<open>div\<close> drawn.
\<close>

theorem C10_classless_div_after_page_counterexample:
  "findall nested_div_doc ''div'' =
     [Element ''div'' [(''class'', ''ocr_page''), (''title'', ''bbox 0 0 2550 3300'')] None None
        [Element ''div'' [] None None [hello_line]],
      Element ''div'' [] None None [hello_line]]
   \<and> map_of (el_attrib (Element ''div'' [] None None [hello_line])) ''class'' = None
   \<and> to_pdf courier_widths \<lparr>hocr = Some nested_div_doc, xmlns = []\<rparr> letter_image ''scan.png''
        ''Courier'' (PInt 8) =
       ([], Inr \<lparr>pagesize = (PFloat 612, PFloat 792), image_drawn = (PFloat 612, PFloat 792),
                 texts = [hello_text]\<rparr>)"
  by code_simp

text \<open>
  C10, amended. \<^verbatim>\<open>to_pdf\<close> raises \<^verbatim>\<open>KeyError\<close> when it reaches an element without
  class: a \<^verbatim>\<open>div\<close> before which every \<^verbatim>\<open>div\<close> has a class other than \<^verbatim>\<open>ocr_page\<close>
  (given that the image's page size was computed), or, once the geometry is resolved, a
  \<^verbatim>\<open>span\<close> before which every \<^verbatim>\<open>span\<close> has a class and, if it is an \<^verbatim>\<open>ocr_line\<close>, was
  drawn.
\<close>

theorem C10_classless_element_reached:
  assumes "hocr cv = Some tree"
  shows "(\<forall>page0 pre dv rest.
            image_page_size im = Inr page0
            \<and> findall tree (xmlns cv @ ''div'') = pre @ dv # rest
            \<and> (\<forall>d\<in>set pre. \<exists>c. map_of (el_attrib d) ''class'' = Some c \<and> c \<noteq> ''ocr_page'')
            \<and> map_of (el_attrib dv) ''class'' = None
          \<longrightarrow> to_pdf fonts cv im name fontname fontsize = ([], Inl KeyError))
    \<and> (\<forall>out g pre sp rest.
            resolve_geometry cv im name = (out, Inr g)
            \<and> findall tree (xmlns cv @ ''span'') = pre @ sp # rest
            \<and> (\<forall>s\<in>set pre. \<exists>c. map_of (el_attrib s) ''class'' = Some c
                  \<and> (c = ''ocr_line'' \<longrightarrow> (\<exists>t. draw_line fonts fontname fontsize g s = Inr t)))
            \<and> map_of (el_attrib sp) ''class'' = None
          \<longrightarrow> to_pdf fonts cv im name fontname fontsize = (out, Inl KeyError))"
proof (intro conjI allI impI)
  fix page0 pre dv rest
  assume a: "image_page_size im = Inr page0
            \<and> findall tree (xmlns cv @ ''div'') = pre @ dv # rest
            \<and> (\<forall>d\<in>set pre. \<exists>c. map_of (el_attrib d) ''class'' = Some c \<and> c \<noteq> ''ocr_page'')
            \<and> map_of (el_attrib dv) ''class'' = None"
  then have "scan_divs (pre @ dv # rest) page0 (PInt 300, PInt 300) = Inl KeyError"
    by (intro scan_divs_classless) simp_all
  then have "resolve_geometry cv im name = ([], Inl KeyError)"
    using a assms by (simp add: resolve_geometry_def)
  then show "to_pdf fonts cv im name fontname fontsize = ([], Inl KeyError)"
    by (simp add: to_pdf_def)
next
  fix out g pre sp rest
  assume a: "resolve_geometry cv im name = (out, Inr g)
            \<and> findall tree (xmlns cv @ ''span'') = pre @ sp # rest
            \<and> (\<forall>s\<in>set pre. \<exists>c. map_of (el_attrib s) ''class'' = Some c
                  \<and> (c = ''ocr_line'' \<longrightarrow> (\<exists>t. draw_line fonts fontname fontsize g s = Inr t)))
            \<and> map_of (el_attrib sp) ''class'' = None"
  then have "draw_lines fonts fontname fontsize g (pre @ sp # rest) = Inl KeyError"
    by (intro draw_lines_classless) simp_all
  then show "to_pdf fonts cv im name fontname fontsize = (out, Inl KeyError)"
    using a assms by (simp add: to_pdf_def try_bind_def)
qed

theorem C10_classless_element_reached_witness:
  "to_pdf courier_widths \<lparr>hocr = Some wrapped_page_doc, xmlns = []\<rparr> letter_image ''scan.png''
      ''Courier'' (PInt 8) = ([], Inl KeyError)
   \<and> to_pdf courier_widths \<lparr>hocr = Some plain_span_doc, xmlns = []\<rparr> letter_image ''scan.png''
      ''Courier'' (PInt 8) = ([], Inl KeyError)"
proof -
  let ?page = "Element ''div'' [(''class'', ''ocr_page''), (''title'', ''bbox 0 0 2550 3300'')]
                None None [hello_line]"
  let ?cv1 = "\<lparr>hocr = Some wrapped_page_doc, xmlns = []\<rparr>"
  let ?cv2 = "\<lparr>hocr = Some plain_span_doc, xmlns = []\<rparr>"
  let ?sp = "Element ''span'' [] (Some ''page 1'') None []"
  have i: "image_page_size letter_image = Inr (Some (PFloat (17 / 2), PFloat 11))"
    by code_simp
  have d: "findall wrapped_page_doc (xmlns ?cv1 @ ''div'') = [] @ Element ''div'' [] None None [?page] # [?page]"
    by code_simp
  have 1: "to_pdf courier_widths ?cv1 letter_image ''scan.png'' ''Courier'' (PInt 8)
      = ([], Inl KeyError)"
  proof -
    have "image_page_size letter_image = Inr (Some (PFloat (17 / 2), PFloat 11))
            \<and> findall wrapped_page_doc (xmlns ?cv1 @ ''div'')
                = [] @ Element ''div'' [] None None [?page] # [?page]
            \<and> (\<forall>d\<in>set []. \<exists>c. map_of (el_attrib d) ''class'' = Some c \<and> c \<noteq> ''ocr_page'')
            \<and> map_of (el_attrib (Element ''div'' [] None None [?page])) ''class'' = None"
      using i d by simp
    moreover have "hocr ?cv1 = Some wrapped_page_doc" by simp
    note C10_classless_element_reached [OF this, of letter_image courier_widths "''scan.png''" "''Courier''" "PInt 8"]
    ultimately show ?thesis by blast
  qed
  have r: "resolve_geometry ?cv2 letter_image ''scan.png'' = ([], Inr letter_geometry)"
    by code_simp
  have s: "findall plain_span_doc (xmlns ?cv2 @ ''span'') = [hello_line] @ ?sp # []"
    by code_simp
  have 2: "to_pdf courier_widths ?cv2 letter_image ''scan.png'' ''Courier'' (PInt 8)
      = ([], Inl KeyError)"
  proof -
    have k: "map_of (el_attrib hello_line) ''class'' = Some ''ocr_line''"
      by (simp add: hello_line_def)
    have "resolve_geometry ?cv2 letter_image ''scan.png'' = ([], Inr letter_geometry)
            \<and> findall plain_span_doc (xmlns ?cv2 @ ''span'') = [hello_line] @ ?sp # []
            \<and> (\<forall>s\<in>set [hello_line]. \<exists>c. map_of (el_attrib s) ''class'' = Some c
                  \<and> (c = ''ocr_line'' \<longrightarrow>
                       (\<exists>t. draw_line courier_widths ''Courier'' (PInt 8) letter_geometry s = Inr t)))
            \<and> map_of (el_attrib ?sp) ''class'' = None"
      using r s k hello_line_drawn(2) by simp
    moreover have "hocr ?cv2 = Some plain_span_doc" by simp
    note C10_classless_element_reached [OF this, of letter_image courier_widths "''scan.png''" "''Courier''" "PInt 8"]
    ultimately show ?thesis by blast
  qed
  show ?thesis using 1 2 by simp
qed

end
